theory Spec2Isabelle
  imports Complex_Main "HOL-Library.Multiset" "HOL-Library.AList"
begin

section \<open>Conventions of the embedding\<close>

text \<open>
  The Go sources are embedded shallowly. A \<^verbatim>\<open>float64\<close> is a \<^typ>\<open>real\<close> (exact
  arithmetic; the constants the code compares against are taken at their decimal
  value), a Go \<^verbatim>\<open>int\<close> is an \<^typ>\<open>int\<close> (the code only compares and converts the
  integers modelled here, it never adds to them), a slice is a list, a Go map is a
  partial function (an association list where the code iterates it), and a pointer or
  map that may be \<^verbatim>\<open>nil\<close> is an option. Every mutex section is one atomic step of
  the model; the wall clock, the zone database, the HTTP transport, the JSON parser and
  the SQL engine are parameters of the functions that call them.
\<close>

section \<open>Configuration (internal/config)\<close>

record TickerConfig =
  Display :: bool
  CollectionEnabled :: bool
  Priority :: string
  RefreshRateMs :: "int option"

record Settings =
  DataDirectory :: string
  TickerConfigs :: "(string \<rightharpoonup> TickerConfig) option"

text \<open>An element of an \<^verbatim>\<open>[]interface{}\<close>: a string, or a value of another type.\<close>

datatype iface = IString string | IOther

section \<open>Rate-limit tracker (internal/scheduler/rate\_limiter.go)\<close>

record RateLimitTracker =
  requestTimes :: "real list"
  rateLimitWindow :: real
  rateLimitMaxRequests :: int
  rateLimitRemaining :: int
  rateLimitResetTime :: real
  isRateLimited :: bool
  retryAfter :: real
  rateLimitErrors :: "real list"
  lightThrottleEnabled :: bool
  lightThrottleInterval :: real
  lastEndpointCallTimes :: "string \<rightharpoonup> real"
  rateLimitErrorThreshold :: int

definition NewRateLimitTracker :: RateLimitTracker where
  "NewRateLimitTracker =
     \<lparr> requestTimes = [], rateLimitWindow = 60, rateLimitMaxRequests = 0,
       rateLimitRemaining = 0, rateLimitResetTime = 0, isRateLimited = False,
       retryAfter = 0, rateLimitErrors = [], lightThrottleEnabled = False,
       lightThrottleInterval = 2 / 10, lastEndpointCallTimes = Map.empty,
       rateLimitErrorThreshold = 5 \<rparr>"

text \<open>
  \<^verbatim>\<open>updateFromHeaders\<close>. The two scanners \<^verbatim>\<open>parseInt\<close> and \<^verbatim>\<open>parseFloat\<close>
  (\<^verbatim>\<open>fmt.Sscanf\<close>, 0 on a scan error) are parameters.
\<close>

definition updateFromHeaders ::
  "(string \<Rightarrow> int) \<Rightarrow> (string \<Rightarrow> real) \<Rightarrow> RateLimitTracker \<Rightarrow> (string \<rightharpoonup> string)
     \<Rightarrow> RateLimitTracker" where
  "updateFromHeaders parseInt parseFloat rlt headers =
     (let r1 = (case headers ''X-RateLimit-Limit'' of
                  Some limit \<Rightarrow>
                    (if parseInt limit > 0
                     then rlt\<lparr>rateLimitMaxRequests := parseInt limit\<rparr> else rlt)
                | None \<Rightarrow> rlt);
          r2 = (case headers ''X-RateLimit-Remaining'' of
                  Some remaining \<Rightarrow>
                    (if parseInt remaining \<ge> 0
                     then r1\<lparr>rateLimitRemaining := parseInt remaining\<rparr> else r1)
                | None \<Rightarrow> r1)
      in (case headers ''X-RateLimit-Reset'' of
            Some reset \<Rightarrow>
              (if parseFloat reset > 0
               then r2\<lparr>rateLimitResetTime := parseFloat reset\<rparr> else r2)
          | None \<Rightarrow> r2))"

text \<open>
  \<^verbatim>\<open>RecordRequest\<close>: append, clean when more than 2000 entries are held, read the
  headers, set the flag.
\<close>

definition RecordRequest ::
  "(string \<Rightarrow> int) \<Rightarrow> (string \<Rightarrow> real) \<Rightarrow> RateLimitTracker \<Rightarrow> real \<Rightarrow> bool
     \<Rightarrow> (string \<rightharpoonup> string) option \<Rightarrow> RateLimitTracker" where
  "RecordRequest parseInt parseFloat rlt requestTime success headers =
     (let appended = requestTimes rlt @ [requestTime];
          cleaned = (if length appended > 2000
                     then filter (\<lambda>t. t > requestTime - rateLimitWindow rlt) appended
                     else appended);
          r1 = rlt\<lparr>requestTimes := cleaned\<rparr>;
          r2 = (case headers of
                  Some h \<Rightarrow> updateFromHeaders parseInt parseFloat r1 h
                | None \<Rightarrow> r1)
      in if \<not> success then r2\<lparr>isRateLimited := True\<rparr>
         else if rateLimitMaxRequests r2 > 0
                 \<and> int (length (requestTimes r2)) \<ge> rateLimitMaxRequests r2
         then r2\<lparr>isRateLimited := True\<rparr>
         else r2\<lparr>isRateLimited := False\<rparr>)"

definition GetMinimumInterval :: "RateLimitTracker \<Rightarrow> int \<Rightarrow> real" where
  "GetMinimumInterval rlt tickerCount =
     (if rateLimitMaxRequests rlt \<le> 0 then 0
      else (let minInterval = rateLimitWindow rlt / real_of_int (rateLimitMaxRequests rlt)
            in if tickerCount > 0 then minInterval * real_of_int tickerCount
               else minInterval))"

section \<open>Adaptive scheduler (internal/scheduler/scheduler.go)\<close>

record UnifiedAdaptiveScheduler =
  rateLimitTracker :: RateLimitTracker
  lastFetchTimes :: "string \<rightharpoonup> real"
  tickerIntervals :: "string \<rightharpoonup> real"
  enabledTickers :: "string list"
  settings :: "Settings option"
  isTestingBranch :: bool
  endpointFetchTimes :: "string \<rightharpoonup> real"

text \<open>
  The loop over \<^verbatim>\<open>openCharts\<close>: an element counts when its dynamic type is string
  and it equals the ticker. A nil slice runs the loop zero times, as the empty list.
\<close>

fun inOpenCharts :: "iface list \<Rightarrow> string \<Rightarrow> bool" where
  "inOpenCharts [] ticker = False"
| "inOpenCharts (IString chartTicker # rest) ticker =
     (if chartTicker = ticker then True else inOpenCharts rest ticker)"
| "inOpenCharts (IOther # rest) ticker = inOpenCharts rest ticker"

text \<open>
  \<^verbatim>\<open>uas.settings.TickerConfigs[ticker]\<close> behind its two nil checks; reading a nil map
  finds nothing.
\<close>

definition lookupTickerConfig :: "Settings option \<Rightarrow> string \<Rightarrow> TickerConfig option" where
  "lookupTickerConfig st ticker =
     (case st of
        None \<Rightarrow> None
      | Some s \<Rightarrow> (case TickerConfigs s of None \<Rightarrow> None | Some m \<Rightarrow> m ticker))"

text \<open>\<^verbatim>\<open>getTickerPriority\<close>: 0 is high, 1 is medium, 2 is low.\<close>

definition getTickerPriority ::
  "UnifiedAdaptiveScheduler \<Rightarrow> string \<Rightarrow> iface list \<Rightarrow> int" where
  "getTickerPriority uas ticker openCharts =
     (if inOpenCharts openCharts ticker then 0
      else (case lookupTickerConfig (settings uas) ticker of
              Some tickerConfig \<Rightarrow>
                (if Priority tickerConfig = ''high'' then 0
                 else if Priority tickerConfig = ''low'' then 2
                 else 1)
            | None \<Rightarrow>
                (if ticker \<in> set (enabledTickers uas) then 1 else 2)))"

definition getTickerRefreshRate :: "UnifiedAdaptiveScheduler \<Rightarrow> string \<Rightarrow> int" where
  "getTickerRefreshRate uas ticker =
     (case lookupTickerConfig (settings uas) ticker of
        Some tickerConfig \<Rightarrow>
          (case RefreshRateMs tickerConfig of
             Some rate \<Rightarrow> (if rate = 0 then 0 else if rate < 1000 then 1000 else rate)
           | None \<Rightarrow> 0)
      | None \<Rightarrow> 0)"

definition CalculateInterval ::
  "UnifiedAdaptiveScheduler \<Rightarrow> string \<Rightarrow> iface list \<Rightarrow> real" where
  "CalculateInterval uas ticker openCharts =
     (let priority = getTickerPriority uas ticker openCharts;
          tickerCount = int (length (enabledTickers uas));
          baseInterval =
            (if priority = 0 then 1
             else if priority = 1
             then (if tickerCount \<le> 5 then 6 else if tickerCount \<le> 20 then 10 else 15)
             else (if tickerCount \<le> 5 then 16 else if tickerCount \<le> 20 then 22 else 30));
          refreshRateMs = getTickerRefreshRate uas ticker;
          interval = (if refreshRateMs > 0 then real_of_int refreshRateMs / 1000
                      else baseInterval);
          minInterval = GetMinimumInterval (rateLimitTracker uas) tickerCount
      in if minInterval > 0 \<and> interval < minInterval then minInterval else interval)"

section \<open>Data values\<close>

text \<open>
  A value held in a \<^verbatim>\<open>map[string]interface{}\<close>: what the JSON decoder produces
  (null, float64, string, bool, array, object), a Go int, a \<^verbatim>\<open>map[string]string\<close>,
  or a value of another type.
  A Go map is an association list: the code iterates its maps, and the list fixes one
  order of iteration. \<open>None\<close> is the nil map, which reads as the empty map.
\<close>

datatype jvalue =
    JNull
  | JNumber real
  | JInt int
  | JString string
  | JBool bool
  | JArray "jvalue list"
  | JObject "(string \<times> jvalue) list"
  | JStringMap "(string \<times> string) list"
  | JOther

type_synonym jmap = "(string \<times> jvalue) list"

type_synonym gomap = "jmap option"

definition entries :: "gomap \<Rightarrow> jmap" where
  "entries data = (case data of None \<Rightarrow> [] | Some m \<Rightarrow> m)"

text \<open>
  Go \<^verbatim>\<open>error\<close> values: \<^verbatim>\<open>fmt.Errorf\<close> without and with a wrapped cause, and
  the three error types of the API client. A message keeps the arguments that
  \<^verbatim>\<open>Sprintf\<close> interpolates, in order.
\<close>

datatype message =
    MsgUnauthorized string string
  | MsgForbidden string string
  | MsgRateLimit string string
  | MsgHTTP int string string string
  | MsgInvalidJSON string string string

datatype error =
    Errorf string
  | Wrap string error
  | SubscriptionError string message
  | RateLimitError string message string
  | RequestError string int message "error option"

section \<open>Market hours (internal/utils/market\_hours.go)\<close>

text \<open>
  A \<^verbatim>\<open>time.Time\<close> in the market time zone, by what the code reads of it: the
  calendar day (days since 1970-01-01) and the wall clock (seconds since local
  midnight). Two times of the same zone are ordered by day, then clock; the zone's
  clock changes happen at 02:00 on Sundays, so against the 08:30 of the same day this
  is the order of the instants. \<^verbatim>\<open>AddDate(0, 0, n)\<close> moves the day and keeps the
  clock.
\<close>

record civil =
  day :: int
  clock :: int

definition Before :: "civil \<Rightarrow> civil \<Rightarrow> bool" where
  "Before t u \<longleftrightarrow> day t < day u \<or> (day t = day u \<and> clock t < clock u)"

definition AddDate :: "civil \<Rightarrow> int \<Rightarrow> civil" where
  "AddDate t days = t\<lparr>day := day t + days\<rparr>"

text \<open>\<^verbatim>\<open>time.Date(y, m, d, hour, min, 0, 0, MARKET_TIMEZONE)\<close> on the day of a time.\<close>

definition Date_at :: "civil \<Rightarrow> int \<Rightarrow> int \<Rightarrow> civil" where
  "Date_at t hour minute = \<lparr> day = day t, clock = hour * 3600 + minute * 60 \<rparr>"

text \<open>\<^verbatim>\<open>time.Weekday\<close>: Sunday is 0 and Saturday is 6; 1970-01-01 was a Thursday.\<close>

definition Sunday :: int where "Sunday = 0"
definition Friday :: int where "Friday = 5"
definition Saturday :: int where "Saturday = 6"

definition Weekday :: "civil \<Rightarrow> int" where
  "Weekday t = (day t + 4) mod 7"

definition IsWeekend :: "civil \<Rightarrow> bool" where
  "IsWeekend date \<longleftrightarrow> Weekday date = Saturday \<or> Weekday date = Sunday"

definition GetLastTradingDay :: "civil \<Rightarrow> civil" where
  "GetLastTradingDay date =
     (if Weekday date = Saturday then AddDate date (- 1)
      else if Weekday date = Sunday then AddDate date (- 2)
      else date)"

definition GetMarketDateForDate :: "civil \<Rightarrow> civil" where
  "GetMarketDateForDate date =
     (if IsWeekend date then GetLastTradingDay date
      else (let rolloverTime = Date_at date 8 30
            in if Before date rolloverTime then AddDate date (- 1) else date))"

section \<open>Batched writer (internal/database/writer.go)\<close>

record PendingWrite =
  pw_Ticker :: string
  Timestamp :: real
  Scalars :: jmap
  Profiles :: jmap
  Date :: civil

record DataWriter =
  pendingWrites :: "string \<rightharpoonup> PendingWrite list"
  firstPendingTime :: "string \<rightharpoonup> real"
  lastFlushTime :: "string \<rightharpoonup> real"
  dw_settings :: Settings

text \<open>\<^verbatim>\<open>dw.pendingWrites[ticker]\<close>: a missing key reads as the nil slice.\<close>

definition pendingOf :: "DataWriter \<Rightarrow> string \<Rightarrow> PendingWrite list" where
  "pendingOf dw ticker = (case pendingWrites dw ticker of None \<Rightarrow> [] | Some ws \<Rightarrow> ws)"

subsection \<open>WriteDataEntry\<close>

text \<open>The test \<^verbatim>\<open>v == nil || v == 0 || v == 0.0 || v == "" || v == false\<close>.\<close>

fun isZeroValue :: "jvalue \<Rightarrow> bool" where
  "isZeroValue JNull = True"
| "isZeroValue (JInt i) = (i = 0)"
| "isZeroValue (JNumber x) = (x = 0)"
| "isZeroValue (JString str) = (str = [])"
| "isZeroValue (JBool b) = (\<not> b)"
| "isZeroValue v = False"

definition isMetadataKey :: "string \<Rightarrow> bool" where
  "isMetadataKey key \<longleftrightarrow>
     key = ''profiles'' \<or> key = ''timestamp'' \<or> key = ''ticker''
     \<or> key = ''_response_headers'' \<or> key = ''_response_time''"

text \<open>The loop over \<^verbatim>\<open>data\<close> that fills \<^verbatim>\<open>scalars\<close> and \<^verbatim>\<open>profiles\<close>.\<close>

fun extractFields :: "jmap \<Rightarrow> jmap \<times> jmap \<Rightarrow> jmap \<times> jmap" where
  "extractFields [] (scalars, profiles) = (scalars, profiles)"
| "extractFields ((key, v) # rest) (scalars, profiles) =
     (if isMetadataKey key then extractFields rest (scalars, profiles)
      else (case v of
              JArray _ \<Rightarrow> extractFields rest (scalars, AList.update key v profiles)
            | JObject _ \<Rightarrow> extractFields rest (scalars, AList.update key v profiles)
            | _ \<Rightarrow>
                (if isZeroValue v then extractFields rest (scalars, profiles)
                 else extractFields rest (AList.update key v scalars, profiles))))"

text \<open>\<^verbatim>\<open>int64(timestamp)\<close>: the fraction is dropped.\<close>

definition int64_of :: "real \<Rightarrow> int" where
  "int64_of x = (if x \<ge> 0 then \<lfloor>x\<rfloor> else \<lceil>x\<rceil>)"

text \<open>
  The date of a row: its timestamp in the market zone (\<open>inET\<close> is the zone database's
  conversion of Unix seconds), through the market-date rule, at midnight.
\<close>

definition entryDateOf :: "(int \<Rightarrow> civil) \<Rightarrow> real \<Rightarrow> civil" where
  "entryDateOf inET timestamp =
     (let timestampET = inET (int64_of timestamp);
          entryDate = GetMarketDateForDate timestampET
      in Date_at entryDate 0 0)"

definition FileWriteCountThresholdCollection :: nat where
  "FileWriteCountThresholdCollection = 5"

definition FileWriteIntervalCollectionSec :: real where
  "FileWriteIntervalCollectionSec = 2"

definition shouldFlush :: "DataWriter \<Rightarrow> string \<Rightarrow> bool \<Rightarrow> real \<Rightarrow> bool" where
  "shouldFlush dw ticker isActive now =
     (let pendingCount = length (pendingOf dw ticker)
      in if pendingCount = 0 then False
         else if isActive then True
         else if pendingCount \<ge> FileWriteCountThresholdCollection then True
         else (case firstPendingTime dw ticker of
                 None \<Rightarrow> True
               | Some firstPending \<Rightarrow> now - firstPending \<ge> FileWriteIntervalCollectionSec))"

text \<open>
  \<^verbatim>\<open>WriteDataEntry\<close> returns the writer, whether it started a flush goroutine, and
  its error result. \<open>now\<close> is the clock at the append, \<open>later\<close> the clock when
  \<^verbatim>\<open>shouldFlush\<close> runs.
\<close>

definition WriteDataEntry ::
  "(int \<Rightarrow> civil) \<Rightarrow> DataWriter \<Rightarrow> string \<Rightarrow> real \<Rightarrow> gomap \<Rightarrow> bool \<Rightarrow> real \<Rightarrow> real
     \<Rightarrow> DataWriter \<times> bool \<times> error option" where
  "WriteDataEntry inET dw ticker timestamp data isActive now later =
     (let profiles0 = (case map_of (entries data) ''profiles'' of
                         Some (JObject prof) \<Rightarrow> prof
                       | _ \<Rightarrow> []);
          (scalars, profiles) = extractFields (entries data) ([], profiles0);
          entryDate = entryDateOf inET timestamp;
          pending = pendingOf dw ticker
                    @ [\<lparr> pw_Ticker = ticker, Timestamp = timestamp, Scalars = scalars,
                         Profiles = profiles, Date = entryDate \<rparr>];
          pendingCount = length pending;
          hasFlushHistory = (lastFlushTime dw ticker \<noteq> None);
          fpt = (if pendingCount = 1 then (firstPendingTime dw)(ticker \<mapsto> now)
                 else firstPendingTime dw);
          dw' = dw\<lparr>pendingWrites := (pendingWrites dw)(ticker \<mapsto> pending),
                    firstPendingTime := fpt\<rparr>;
          flush = (if \<not> hasFlushHistory then True else shouldFlush dw' ticker isActive later)
      in (dw', flush, None))"

subsection \<open>deduplicateWrites\<close>

text \<open>
  The exchange sort of \<^verbatim>\<open>deduplicateWrites\<close>: the inner loop over \<open>j\<close> and the
  outer loop over \<open>i\<close>, on the copy \<^verbatim>\<open>sorted\<close> (here \<open>arr\<close>).
\<close>

function sortInner :: "nat \<Rightarrow> nat \<Rightarrow> PendingWrite list \<Rightarrow> PendingWrite list" where
  "sortInner i j arr =
     (if j < length arr
      then sortInner i (j + 1)
             (if Timestamp (arr ! i) > Timestamp (arr ! j)
              then arr[i := arr ! j, j := arr ! i]
              else arr)
      else arr)"
  by pat_completeness auto
termination
  by (relation "measure (\<lambda>(i, j, arr). length arr - j)") auto

declare sortInner.simps [simp del]

function sortOuter :: "nat \<Rightarrow> PendingWrite list \<Rightarrow> PendingWrite list" where
  "sortOuter i arr =
     (if int i < int (length arr) - 1
      then sortOuter (i + 1) (sortInner i (i + 1) arr)
      else arr)"
  by pat_completeness auto
termination
proof (relation "measure (\<lambda>(i, arr). length arr - i)")
  show "wf (measure (\<lambda>(i, arr). length arr - i))" by simp
next
  fix i :: nat and arr :: "PendingWrite list"
  assume a: "int i < int (length arr) - 1"
  have len: "length (sortInner a b xs) = length xs" for a b xs
    by (induction a b xs rule: sortInner.induct) (subst sortInner.simps, simp)
  show "((i + 1, sortInner i (i + 1) arr), (i, arr))
          \<in> measure (\<lambda>(i, arr). length arr - i)"
    using a by (simp add: len)
qed

declare sortOuter.simps [simp del]

definition sortWrites :: "PendingWrite list \<Rightarrow> PendingWrite list" where
  "sortWrites writes = sortOuter 0 writes"

text \<open>
  The second loop: position \<open>i\<close> is skipped when position \<open>i + 1\<close> exists and is
  within the tolerance, and kept otherwise. The recursion is on the rest of the array
  from \<open>i\<close> on.
\<close>

fun dedupLoop :: "real \<Rightarrow> PendingWrite list \<Rightarrow> PendingWrite list" where
  "dedupLoop tol [] = []"
| "dedupLoop tol [w] = [w]"
| "dedupLoop tol (w # nxt # rest) =
     (if Timestamp nxt - Timestamp w \<le> tol
      then dedupLoop tol (nxt # rest)
      else w # dedupLoop tol (nxt # rest))"

definition deduplicateWrites :: "PendingWrite list \<Rightarrow> real \<Rightarrow> PendingWrite list" where
  "deduplicateWrites writes tol =
     (if length writes = 0 then writes else dedupLoop tol (sortWrites writes))"

text \<open>The constant \<^verbatim>\<open>tolerance\<close> of \<^verbatim>\<open>flushDate\<close>.\<close>

definition tolerance :: real where
  "tolerance = 1 / 10"

subsection \<open>getDBPath, flushDate, FlushTicker\<close>

text \<open>The date \<^verbatim>\<open>getDBPath\<close> formats into the directory name.\<close>

definition getDBPath_marketDate :: "civil \<Rightarrow> civil" where
  "getDBPath_marketDate date =
     (if IsWeekend date then GetLastTradingDay date else date)"

text \<open>\<open>fmt\<close> is \<^verbatim>\<open>Format("01.02.2006")\<close>; the path separator is written \<open>/\<close>.\<close>

definition getDBPath :: "(civil \<Rightarrow> string) \<Rightarrow> Settings \<Rightarrow> string \<Rightarrow> civil \<Rightarrow> string" where
  "getDBPath fmt st ticker date =
     (let dataDir = (if DataDirectory st = [] then ''Tickers'' else DataDirectory st);
          dir = dataDir @ '' '' @ fmt (getDBPath_marketDate date)
      in dir @ ''/'' @ ticker @ ''.db'')"

text \<open>
  The database files, by path: the rows of \<^verbatim>\<open>ticker_data\<close>. \<^verbatim>\<open>INSERT OR REPLACE\<close>
  replaces the row with the same timestamp.
\<close>

type_synonym store = "string \<Rightarrow> PendingWrite list"

definition insertOrReplace :: "PendingWrite list \<Rightarrow> PendingWrite \<Rightarrow> PendingWrite list" where
  "insertOrReplace table w = filter (\<lambda>r. Timestamp r \<noteq> Timestamp w) table @ [w]"

text \<open>
  \<^verbatim>\<open>flushDate\<close>. Whether the connection, the schema change, the transaction or the
  commit fails is the environment's: \<open>fault path\<close> is the error, if any. All inserts
  are in one transaction, so a failed flush leaves the rows as they were.
\<close>

definition flushDate ::
  "(civil \<Rightarrow> string) \<Rightarrow> (string \<Rightarrow> error option) \<Rightarrow> Settings \<Rightarrow> string \<Rightarrow> civil
     \<Rightarrow> PendingWrite list \<Rightarrow> store \<Rightarrow> store \<times> error option" where
  "flushDate fmt fault st ticker date writes db =
     (let deduplicatedWrites = deduplicateWrites writes tolerance;
          dbPath = getDBPath fmt st ticker date
      in (case fault dbPath of
            Some err \<Rightarrow> (db, Some err)
          | None \<Rightarrow> (db(dbPath := foldl insertOrReplace (db dbPath) deduplicatedWrites), None)))"

text \<open>The key of \<^verbatim>\<open>byDate\<close> for a write, and the group of a key.\<close>

definition dateKey :: "PendingWrite \<Rightarrow> civil" where
  "dateKey w = Date_at (Date w) 0 0"

definition byDate :: "PendingWrite list \<Rightarrow> civil \<Rightarrow> PendingWrite list" where
  "byDate pending date = filter (\<lambda>w. dateKey w = date) pending"

text \<open>
  The loop \<^verbatim>\<open>for date, writes := range byDate\<close>, over the keys in the order the
  runtime visits them.
\<close>

fun flushDates ::
  "(civil \<Rightarrow> string) \<Rightarrow> (string \<Rightarrow> error option) \<Rightarrow> string \<Rightarrow> (civil \<Rightarrow> PendingWrite list)
     \<Rightarrow> civil list \<Rightarrow> DataWriter \<Rightarrow> store \<Rightarrow> DataWriter \<times> store \<times> error option" where
  "flushDates fmt fault ticker groups [] dw db = (dw, db, None)"
| "flushDates fmt fault ticker groups (date # dates) dw db =
     (case flushDate fmt fault (dw_settings dw) ticker date (groups date) db of
        (db', Some err) \<Rightarrow>
          (dw\<lparr>pendingWrites := (pendingWrites dw)(ticker \<mapsto> pendingOf dw ticker @ groups date)\<rparr>,
           db', Some err)
      | (db', None) \<Rightarrow> flushDates fmt fault ticker groups dates dw db')"

text \<open>
  \<^verbatim>\<open>FlushTicker\<close>. \<open>visit\<close> is the runtime's choice of the order in which
  \<^verbatim>\<open>range\<close> visits the keys of \<^verbatim>\<open>byDate\<close>.
\<close>

definition FlushTicker ::
  "(civil \<Rightarrow> string) \<Rightarrow> (string \<Rightarrow> error option) \<Rightarrow> (civil list \<Rightarrow> civil list)
     \<Rightarrow> DataWriter \<Rightarrow> store \<Rightarrow> string \<Rightarrow> real \<Rightarrow> DataWriter \<times> store \<times> error option" where
  "FlushTicker fmt fault visit dw db ticker now =
     (let pending = pendingOf dw ticker
      in if length pending = 0 then (dw, db, None)
         else (let dw1 = dw\<lparr>pendingWrites := (pendingWrites dw)(ticker \<mapsto> []),
                            firstPendingTime := (firstPendingTime dw)(ticker := None),
                            lastFlushTime := (lastFlushTime dw)(ticker \<mapsto> now)\<rparr>
               in flushDates fmt fault ticker (byDate pending)
                    (visit (remdups (map dateKey pending))) dw1 db))"

section \<open>Priority write queue (internal/coordinator/write\_queue.go)\<close>

record WriteTask =
  wt_Ticker :: string
  wt_Timestamp :: real
  wt_Data :: gomap
  wt_Priority :: int

record PriorityWriteQueue =
  pq_pendingWrites :: "string \<rightharpoonup> WriteTask"

definition NewPriorityWriteQueue :: PriorityWriteQueue where
  "NewPriorityWriteQueue = \<lparr> pq_pendingWrites = Map.empty \<rparr>"

text \<open>
  \<^verbatim>\<open>Enqueue\<close> stores the task under its lock and starts \<^verbatim>\<open>go processTask(ticker)\<close>;
  when that goroutine runs is the scheduler's choice, so the model has it as a step of
  its own.
\<close>

definition Enqueue ::
  "PriorityWriteQueue \<Rightarrow> string \<Rightarrow> real \<Rightarrow> gomap \<Rightarrow> int \<Rightarrow> PriorityWriteQueue" where
  "Enqueue pwq ticker timestamp data priority =
     pwq\<lparr>pq_pendingWrites := (pq_pendingWrites pwq)
            (ticker \<mapsto> \<lparr> wt_Ticker = ticker, wt_Timestamp = timestamp, wt_Data = data,
                          wt_Priority = priority \<rparr>)\<rparr>"

text \<open>The locked section at the head of \<^verbatim>\<open>processTask\<close>: read the task and delete it.\<close>

definition takePending ::
  "PriorityWriteQueue \<Rightarrow> string \<Rightarrow> WriteTask option \<times> PriorityWriteQueue" where
  "takePending pwq ticker =
     (case pq_pendingWrites pwq ticker of
        None \<Rightarrow> (None, pwq)
      | Some task \<Rightarrow>
          (Some task, pwq\<lparr>pq_pendingWrites := (pq_pendingWrites pwq)(ticker := None)\<rparr>))"

text \<open>The retry constants, shared by \<^verbatim>\<open>processTask\<close> and \<^verbatim>\<open>FetchEndpoint\<close> (ms).\<close>

definition maxRetries :: nat where
  "maxRetries = 3"

definition retryDelays :: "nat list" where
  "retryDelays = [100, 500, 1000]"

text \<open>What \<^verbatim>\<open>processTask\<close> does besides changing state, in order.\<close>

datatype pt_event =
    CallWriteDataEntry nat
  | PtSleep nat
  | SyncFallback
  | Dropped
  | ScheduleFlush string

text \<open>
  The retry loop of \<^verbatim>\<open>processTask\<close> around a write that may fail: the state of the
  writer, \<^verbatim>\<open>lastErr\<close> and the events so far.
\<close>

function writeAttempts ::
  "('w \<Rightarrow> 'w \<times> error option) \<Rightarrow> nat \<Rightarrow> error option \<Rightarrow> 'w \<Rightarrow> pt_event list
     \<Rightarrow> 'w \<times> error option \<times> pt_event list" where
  "writeAttempts write attempt lastErr w trace =
     (if attempt < maxRetries
      then (case write w of
              (w', None) \<Rightarrow> (w', lastErr, trace @ [CallWriteDataEntry attempt])
            | (w', Some err) \<Rightarrow>
                (if attempt < maxRetries - 1
                 then writeAttempts write (attempt + 1) (Some err) w'
                        (trace @ [CallWriteDataEntry attempt, PtSleep (retryDelays ! attempt)])
                 else writeAttempts write (attempt + 1) (Some err) w'
                        (trace @ [CallWriteDataEntry attempt])))
      else (w, lastErr, trace))"
  by pat_completeness auto
termination
  by (relation "measure (\<lambda>(write, attempt, lastErr, w, trace). maxRetries - attempt)") auto

declare writeAttempts.simps [simp del]

definition processTaskWith ::
  "(WriteTask \<Rightarrow> bool \<Rightarrow> 'w \<Rightarrow> 'w \<times> error option) \<Rightarrow> PriorityWriteQueue \<Rightarrow> 'w \<Rightarrow> string
     \<Rightarrow> PriorityWriteQueue \<times> 'w \<times> pt_event list" where
  "processTaskWith write pwq w ticker =
     (case takePending pwq ticker of
        (None, pwq') \<Rightarrow> (pwq', w, [])
      | (Some task, pwq') \<Rightarrow>
          (let isActive = (wt_Priority task = 0);
               (w1, lastErr, trace) = writeAttempts (write task isActive) 0 None w [];
               flushEv = (if isActive then [ScheduleFlush (wt_Ticker task)] else [])
           in (case lastErr of
                 None \<Rightarrow> (pwq', w1, trace @ flushEv)
               | Some _ \<Rightarrow>
                   (case write task isActive w1 of
                      (w2, Some err) \<Rightarrow> (pwq', w2, trace @ [SyncFallback, Dropped])
                    | (w2, None) \<Rightarrow> (pwq', w2, trace @ [SyncFallback] @ flushEv)))))"

text \<open>
  The write \<^verbatim>\<open>processTask\<close> uses: \<^verbatim>\<open>WriteDataEntry\<close> on the data writer. The second
  component lists the tickers for which a flush goroutine was started.
\<close>

definition writeTask ::
  "(int \<Rightarrow> civil) \<Rightarrow> real \<Rightarrow> real \<Rightarrow> WriteTask \<Rightarrow> bool \<Rightarrow> DataWriter \<times> string list
     \<Rightarrow> (DataWriter \<times> string list) \<times> error option" where
  "writeTask inET now later task isActive w =
     (case WriteDataEntry inET (fst w) (wt_Ticker task) (wt_Timestamp task) (wt_Data task)
             isActive now later of
        (dw', flush, err) \<Rightarrow>
          ((dw', if flush then snd w @ [wt_Ticker task] else snd w), err))"

definition processTask ::
  "(int \<Rightarrow> civil) \<Rightarrow> real \<Rightarrow> real \<Rightarrow> PriorityWriteQueue \<Rightarrow> DataWriter \<times> string list \<Rightarrow> string
     \<Rightarrow> PriorityWriteQueue \<times> (DataWriter \<times> string list) \<times> pt_event list" where
  "processTask inET now later = processTaskWith (writeTask inET now later)"

text \<open>Operations on the queue, and a run of them from the empty queue.\<close>

datatype queue_op =
    DoEnqueue string real gomap int
  | DoDispatch string

fun applyOp :: "PriorityWriteQueue \<Rightarrow> queue_op \<Rightarrow> PriorityWriteQueue" where
  "applyOp pwq (DoEnqueue ticker timestamp data priority) =
     Enqueue pwq ticker timestamp data priority"
| "applyOp pwq (DoDispatch ticker) = snd (takePending pwq ticker)"

definition runOps :: "queue_op list \<Rightarrow> PriorityWriteQueue" where
  "runOps ops = foldl applyOp NewPriorityWriteQueue ops"

section \<open>HTTP endpoint client (internal/api)\<close>












section \<open>Data-collection coordinator (internal/coordinator)\<close>

record QueryPlanItem =
  qp_Ticker :: string
  qp_Endpoints :: "string list"

record Query =
  q_Ticker :: string
  q_Endpoint :: string

text \<open>The conversion of the plan into queries, one per ticker and endpoint.\<close>

definition planQueries :: "QueryPlanItem list \<Rightarrow> Query list" where
  "planQueries plan =
     concat (map (\<lambda>item. map (\<lambda>endpoint. \<lparr> q_Ticker = qp_Ticker item, q_Endpoint = endpoint \<rparr>)
                           (qp_Endpoints item)) plan)"

text \<open>
  \<^verbatim>\<open>aggregateResults\<close>. \<^verbatim>\<open>tickerData\<close> is an association list from tickers to map
  references; \<^verbatim>\<open>make\<close> gives \<open>Some []\<close>, the empty map that is not nil.
\<close>

fun initTickerData :: "QueryPlanItem list \<Rightarrow> (string \<times> gomap) list \<Rightarrow> (string \<times> gomap) list" where
  "initTickerData [] tickerData = tickerData"
| "initTickerData (item # rest) tickerData =
     initTickerData rest
       (if map_of tickerData (qp_Ticker item) = None
        then tickerData @ [(qp_Ticker item, Some [])]
        else tickerData)"

definition isResponseMetadata :: "string \<Rightarrow> bool" where
  "isResponseMetadata key \<longleftrightarrow> key = ''_response_headers'' \<or> key = ''_response_time''"

fun mergeResult :: "jmap \<Rightarrow> jmap \<Rightarrow> jmap" where
  "mergeResult [] data = data"
| "mergeResult ((key, v) # rest) data =
     (if isResponseMetadata key then mergeResult rest data
      else mergeResult rest (AList.update key v data))"

text \<open>
  The loop over \<^verbatim>\<open>results\<close>. A result for a ticker without an entry would write into
  a nil map, which panics: \<open>None\<close>.
\<close>

fun aggregateLoop ::
  "(Query \<times> gomap) list \<Rightarrow> (string \<times> gomap) list \<Rightarrow> (string \<times> gomap) list option" where
  "aggregateLoop [] tickerData = Some tickerData"
| "aggregateLoop ((query, result) # rest) tickerData =
     (case result of
        None \<Rightarrow> aggregateLoop rest tickerData
      | Some r \<Rightarrow>
          (case map_of tickerData (q_Ticker query) of
             Some (Some data) \<Rightarrow>
               aggregateLoop rest
                 (AList.update (q_Ticker query) (Some (mergeResult r data)) tickerData)
           | _ \<Rightarrow>
               (if filter (\<lambda>kv. \<not> isResponseMetadata (fst kv)) r = []
                then aggregateLoop rest tickerData
                else None)))"

definition aggregateResults ::
  "QueryPlanItem list \<Rightarrow> (Query \<times> gomap) list \<Rightarrow> (string \<times> gomap) list option" where
  "aggregateResults plan results = aggregateLoop results (initTickerData plan [])"

text \<open>
  \<^verbatim>\<open>ProcessCompletedTickerData\<close>, on the scheduler and the write queue. The result map
  is \<open>Skipped\<close> (timestamp) or \<open>Completed\<close> (timestamp, priority, interval).
\<close>

datatype completed = Skipped real | Completed real int real

definition ProcessCompletedTickerData ::
  "bool \<Rightarrow> iface list \<Rightarrow> real \<Rightarrow> UnifiedAdaptiveScheduler \<times> PriorityWriteQueue \<Rightarrow> string
     \<Rightarrow> gomap \<Rightarrow> (UnifiedAdaptiveScheduler \<times> PriorityWriteQueue) \<times> completed" where
  "ProcessCompletedTickerData shuttingDown openCharts currentTime st ticker data =
     (let sched = (fst st)\<lparr>lastFetchTimes := (lastFetchTimes (fst st))(ticker \<mapsto> currentTime)\<rparr>;
          timestampSeconds =
            (case map_of (entries data) ''timestamp'' of
               Some (JNumber apiTimestamp) \<Rightarrow>
                 (if apiTimestamp > 10 ^ 10 then apiTimestamp / 1000 else apiTimestamp)
             | _ \<Rightarrow> currentTime)
      in if shuttingDown then ((sched, snd st), Skipped timestampSeconds)
         else (let priority = (if inOpenCharts openCharts ticker then 0 else 1);
                   queue = Enqueue (snd st) ticker timestampSeconds data priority;
                   interval = CalculateInterval sched ticker openCharts
               in ((sched, queue), Completed timestampSeconds priority interval)))"

text \<open>The loop \<^verbatim>\<open>for ticker, data := range tickerData\<close> with its test \<^verbatim>\<open>data != nil\<close>.\<close>

fun processTickerData ::
  "bool \<Rightarrow> iface list \<Rightarrow> real \<Rightarrow> (string \<times> gomap) list
     \<Rightarrow> UnifiedAdaptiveScheduler \<times> PriorityWriteQueue
     \<Rightarrow> UnifiedAdaptiveScheduler \<times> PriorityWriteQueue" where
  "processTickerData shuttingDown openCharts now [] st = st"
| "processTickerData shuttingDown openCharts now ((ticker, data) # rest) st =
     (if data \<noteq> None
      then processTickerData shuttingDown openCharts now rest
             (fst (ProcessCompletedTickerData shuttingDown openCharts now st ticker data))
      else processTickerData shuttingDown openCharts now rest st)"

text \<open>
  \<^verbatim>\<open>ProcessTickerBatch\<close>. The planner and the validation of the query system are
  parameters, as is \<open>fetch\<close>, the outcome of \<^verbatim>\<open>FetchEndpoint\<close> for a query in this
  batch; \<open>shuttingDown\<close> is the flag at the head of the batch and \<open>stopping\<close> the flag
  when the rows are processed. The health-check calls and the in-progress set do not
  reach the queue and are left out. \<open>None\<close> is a panic.
\<close>

definition ProcessTickerBatch ::
  "(string list \<Rightarrow> QueryPlanItem list) \<Rightarrow> (QueryPlanItem list \<Rightarrow> Query list)
     \<Rightarrow> (Query \<Rightarrow> error + gomap) \<Rightarrow> bool \<Rightarrow> bool \<Rightarrow> iface list \<Rightarrow> real
     \<Rightarrow> UnifiedAdaptiveScheduler \<times> PriorityWriteQueue \<Rightarrow> string list
     \<Rightarrow> (UnifiedAdaptiveScheduler \<times> PriorityWriteQueue) option" where
  "ProcessTickerBatch planner validate fetch shuttingDown stopping openCharts now st tickers =
     (if length tickers = 0 then Some st
      else if shuttingDown then Some st
      else (let plan = planner tickers
            in if length plan = 0 then Some st
               else (let validatedQueries = validate plan;
                         results = List.map_filter
                                     (\<lambda>q. case fetch q of
                                             Inr result \<Rightarrow> Some (q, result)
                                           | Inl err \<Rightarrow> None)
                                     (remdups validatedQueries)
                     in (case aggregateResults plan results of
                           None \<Rightarrow> None
                         | Some tickerData \<Rightarrow>
                             Some (processTickerData stopping openCharts now tickerData st)))))"

section \<open>Statements of the specification\<close>

text \<open>
  The interval table of the specification, by priority class and number \<open>N\<close> of
  enabled tickers, written from the specification's table.
\<close>

datatype priority_class = High | Medium | Low

definition class_of :: "int \<Rightarrow> priority_class" where
  "class_of p = (if p = 0 then High else if p = 1 then Medium else Low)"

fun interval_table :: "priority_class \<Rightarrow> nat \<Rightarrow> real" where
  "interval_table High N = 1"
| "interval_table Medium N = (if N \<le> 5 then 6 else if 6 \<le> N \<and> N \<le> 20 then 10 else 15)"
| "interval_table Low N = (if N \<le> 5 then 16 else if 6 \<le> N \<and> N \<le> 20 then 22 else 30)"

text \<open>The \<^verbatim>\<open>refresh_rate_ms\<close> field of a ticker, 0 when the ticker has none.\<close>

definition refresh_rate_ms :: "UnifiedAdaptiveScheduler \<Rightarrow> string \<Rightarrow> int" where
  "refresh_rate_ms uas ticker =
     (case lookupTickerConfig (settings uas) ticker of
        Some c \<Rightarrow> (case RefreshRateMs c of Some r \<Rightarrow> r | None \<Rightarrow> 0)
      | None \<Rightarrow> 0)"

definition spec_interval :: "UnifiedAdaptiveScheduler \<Rightarrow> string \<Rightarrow> iface list \<Rightarrow> real" where
  "spec_interval uas ticker openCharts =
     (let N = length (enabledTickers uas);
          looked_up = interval_table (class_of (getTickerPriority uas ticker openCharts)) N;
          overridden = (if refresh_rate_ms uas ticker \<noteq> 0
                        then real_of_int (max (refresh_rate_ms uas ticker) 1000) / 1000
                        else looked_up);
          floor_s = GetMinimumInterval (rateLimitTracker uas) (int N)
      in if floor_s > 0 then max overridden floor_s else overridden)"


text \<open>
  The priority rule as the specification words it: displayed, else a configured
  \<open>high\<close> or \<open>low\<close>, else enabled, else low. \<open>configured\<close> is the priority string
  of the ticker's configuration entry, if the ticker has one.
\<close>

definition displayed_set :: "iface list \<Rightarrow> string set" where
  "displayed_set openCharts = {t. IString t \<in> set openCharts}"

definition configured_priority :: "UnifiedAdaptiveScheduler \<Rightarrow> string \<Rightarrow> string option" where
  "configured_priority uas ticker = map_option Priority (lookupTickerConfig (settings uas) ticker)"

definition claimed_priority ::
  "string set \<Rightarrow> string option \<Rightarrow> string set \<Rightarrow> string \<Rightarrow> priority_class" where
  "claimed_priority displayed configured enabled ticker =
     (if ticker \<in> displayed then High
      else if configured = Some ''high'' then High
      else if configured = Some ''low'' then Low
      else if ticker \<in> enabled then Medium
      else Low)"

text \<open>
  The rule the code follows: a configuration entry decides alone (any priority string
  other than \<open>high\<close> and \<open>low\<close> is medium); the enabled set is consulted only for a
  ticker without an entry.
\<close>

definition entry_first_priority ::
  "string set \<Rightarrow> string option \<Rightarrow> string set \<Rightarrow> string \<Rightarrow> priority_class" where
  "entry_first_priority displayed configured enabled ticker =
     (if ticker \<in> displayed then High
      else (case configured of
              Some p \<Rightarrow> (if p = ''high'' then High else if p = ''low'' then Low else Medium)
            | None \<Rightarrow> (if ticker \<in> enabled then Medium else Low)))"

text \<open>Example states.\<close>

definition example_settings :: Settings where
  "example_settings =
     \<lparr> DataDirectory = ''Tickers'',
       TickerConfigs = Some [''SPX'' \<mapsto> \<lparr> Display = True, CollectionEnabled = True,
                                          Priority = ''low'', RefreshRateMs = None \<rparr>,
                             ''QQQ'' \<mapsto> \<lparr> Display = False, CollectionEnabled = False,
                                          Priority = ''medium'', RefreshRateMs = Some 500 \<rparr>] \<rparr>"

definition example_scheduler :: UnifiedAdaptiveScheduler where
  "example_scheduler =
     \<lparr> rateLimitTracker = NewRateLimitTracker, lastFetchTimes = Map.empty,
       tickerIntervals = Map.empty, enabledTickers = [''SPX'', ''IWM''],
       settings = Some example_settings, isTestingBranch = False,
       endpointFetchTimes = Map.empty \<rparr>"

text \<open>
  Runs for the deduplication rule: a run is a non-empty stretch whose consecutive
  timestamp differences are each within the tolerance; a list of runs is maximal when
  the gap between the end of a run and the start of the next exceeds the tolerance.
  \<open>runs\<close> cuts a list into such runs.
\<close>

definition close_run :: "real \<Rightarrow> PendingWrite list \<Rightarrow> bool" where
  "close_run tol r \<longleftrightarrow>
     r \<noteq> [] \<and> (\<forall>k. Suc k < length r \<longrightarrow> Timestamp (r ! Suc k) - Timestamp (r ! k) \<le> tol)"

definition maximal_runs :: "real \<Rightarrow> PendingWrite list list \<Rightarrow> bool" where
  "maximal_runs tol rs \<longleftrightarrow>
     (\<forall>r \<in> set rs. close_run tol r)
     \<and> (\<forall>k. Suc k < length rs \<longrightarrow>
            tol < Timestamp (hd (rs ! Suc k)) - Timestamp (last (rs ! k)))"

fun runs :: "real \<Rightarrow> PendingWrite list \<Rightarrow> PendingWrite list list" where
  "runs tol [] = []"
| "runs tol [w] = [[w]]"
| "runs tol (w # nxt # rest) =
     (if Timestamp nxt - Timestamp w \<le> tol
      then (case runs tol (nxt # rest) of
              r # rs \<Rightarrow> (w # r) # rs
            | [] \<Rightarrow> [[w]])
      else [w] # runs tol (nxt # rest))"




text \<open>Example rows, an example writer, and the zone conversion of the UTC fallback.\<close>

definition row :: "string \<Rightarrow> real \<Rightarrow> int \<Rightarrow> PendingWrite" where
  "row name t d =
     \<lparr> pw_Ticker = name, Timestamp = t, Scalars = [], Profiles = [],
       Date = \<lparr> day = d, clock = 0 \<rparr> \<rparr>"

definition example_writer :: DataWriter where
  "example_writer =
     \<lparr> pendingWrites = Map.empty, firstPendingTime = Map.empty, lastFlushTime = Map.empty,
       dw_settings = example_settings \<rparr>"

definition inUTC :: "int \<Rightarrow> civil" where
  "inUTC secs = \<lparr> day = secs div 86400, clock = secs mod 86400 \<rparr>"

text \<open>The invariant of the outer loop of the sort: the first \<open>i\<close> positions are final.\<close>

definition settled :: "nat \<Rightarrow> PendingWrite list \<Rightarrow> bool" where
  "settled i xs \<longleftrightarrow>
     (\<forall>a b. a < b \<and> b < length xs \<and> a < i \<longrightarrow> Timestamp (xs ! a) \<le> Timestamp (xs ! b))"

text \<open>
  The pending task of a ticker as the specification words it: the task of the most
  recent enqueue for the ticker, unless a dispatch for the ticker came after it.
\<close>

fun op_ticker :: "queue_op \<Rightarrow> string" where
  "op_ticker (DoEnqueue ticker timestamp data priority) = ticker"
| "op_ticker (DoDispatch ticker) = ticker"

definition latest_undispatched :: "queue_op list \<Rightarrow> string \<Rightarrow> WriteTask option" where
  "latest_undispatched ops ticker =
     (case filter (\<lambda>op. op_ticker op = ticker) (rev ops) of
        [] \<Rightarrow> None
      | DoDispatch _ # _ \<Rightarrow> None
      | DoEnqueue t timestamp data priority # _ \<Rightarrow>
          Some \<lparr> wt_Ticker = t, wt_Timestamp = timestamp, wt_Data = data,
                 wt_Priority = priority \<rparr>)"

text \<open>
  A writer holding a Friday row and a Monday row for one ticker, and a disk on which
  every flush fails.
\<close>

definition two_day_writer :: DataWriter where
  "two_day_writer =
     example_writer\<lparr>pendingWrites := [''SPX'' \<mapsto> [row ''fri'' 1 19671, row ''mon'' 2 19674]]\<rparr>"

definition failing_disk :: "string \<Rightarrow> error option" where
  "failing_disk path = Some (Errorf ''failed to get connection'')"










text \<open>A batch of one ticker with one endpoint, in which every fetch fails.\<close>

definition one_endpoint_planner :: "string list \<Rightarrow> QueryPlanItem list" where
  "one_endpoint_planner tickers =
     map (\<lambda>t. \<lparr> qp_Ticker = t, qp_Endpoints = [''classic_zero''] \<rparr>) tickers"

definition all_fail :: "Query \<Rightarrow> error + gomap" where
  "all_fail q = Inl (Wrap ''request error after 3 attempts'' (Errorf ''timeout''))"

text \<open>A burst: \<open>n\<close> successful requests, all stamped 100 s, with no headers.\<close>

definition burst :: "nat \<Rightarrow> RateLimitTracker" where
  "burst n = ((\<lambda>rlt. RecordRequest (\<lambda>_. 0) (\<lambda>_. 0) rlt 100 True None) ^^ n) NewRateLimitTracker"

section \<open>Results: scheduler\<close>

text \<open>
  C1. For every scheduler state, ticker and open-chart list, \<^verbatim>\<open>CalculateInterval\<close>
  returns the table value of the ticker's priority for the number of enabled tickers
  (high 1; medium 6, 10, 15; low 16, 22, 30 on the bands \<open>N \<le> 5\<close>, \<open>6 \<le> N \<le> 20\<close>,
  beyond), replaced by \<open>max(refresh_rate_ms, 1000) / 1000\<close> when the ticker has a
  non-zero override, and then raised to the tracker's \<^verbatim>\<open>GetMinimumInterval(N)\<close> when
  that floor is positive.
\<close>

theorem CalculateInterval_spec:
  "CalculateInterval uas ticker openCharts = spec_interval uas ticker openCharts"
  by (simp add: CalculateInterval_def spec_interval_def Let_def getTickerRefreshRate_def
      refresh_rate_ms_def class_of_def max_def
      split: option.splits)


text \<open>Scenario 5 of the specification and the other rows of the table, evaluated.\<close>

theorem CalculateInterval_examples:
  "CalculateInterval example_scheduler ''SPX'' [IString ''SPX''] = 1
   \<and> CalculateInterval example_scheduler ''SPX'' [] = 16
   \<and> CalculateInterval example_scheduler ''IWM'' [IOther] = 6
   \<and> CalculateInterval example_scheduler ''QQQ'' [] = 1
   \<and> CalculateInterval
        (example_scheduler\<lparr>rateLimitTracker := NewRateLimitTracker\<lparr>rateLimitMaxRequests := 10\<rparr>\<rparr>)
        ''IWM'' [] = 12"
  by (simp add: CalculateInterval_spec spec_interval_def example_scheduler_def
      example_settings_def getTickerPriority_def lookupTickerConfig_def class_of_def
      refresh_rate_ms_def GetMinimumInterval_def NewRateLimitTracker_def)

lemma inOpenCharts_iff: "inOpenCharts openCharts ticker \<longleftrightarrow> IString ticker \<in> set openCharts"
  by (induction openCharts ticker rule: inOpenCharts.induct) auto

text \<open>
  C4, as stated, fails: a ticker that has a configuration entry with priority
  \<open>medium\<close>, is not displayed and is not in the enabled set is medium for the code and
  low for the claim.
\<close>

theorem getTickerPriority_claimed_counterexample:
  "class_of (getTickerPriority (example_scheduler\<lparr>enabledTickers := []\<rparr>) ''QQQ'' []) = Medium
   \<and> claimed_priority (displayed_set [])
        (configured_priority (example_scheduler\<lparr>enabledTickers := []\<rparr>) ''QQQ'')
        (set (enabledTickers (example_scheduler\<lparr>enabledTickers := []\<rparr>))) ''QQQ'' = Low"
  by (simp add: getTickerPriority_def claimed_priority_def configured_priority_def
      displayed_set_def lookupTickerConfig_def example_scheduler_def example_settings_def
      class_of_def)

text \<open>
  C4, amended. For every ticker, scheduler state and open-chart list the first matching
  rule applies: displayed is high; otherwise a ticker with a configuration entry is
  high for \<open>high\<close>, low for \<open>low\<close> and medium for any other priority string, whatever
  the enabled set; otherwise a ticker in the enabled set is medium; otherwise low.
\<close>

theorem getTickerPriority_entry_first:
  "class_of (getTickerPriority uas ticker openCharts) =
     entry_first_priority (displayed_set openCharts) (configured_priority uas ticker)
       (set (enabledTickers uas)) ticker"
  by (simp add: getTickerPriority_def entry_first_priority_def configured_priority_def
      displayed_set_def inOpenCharts_iff class_of_def split: option.splits)

theorem getTickerPriority_entry_first_witness:
  "class_of (getTickerPriority example_scheduler ''SPX'' [IString ''SPX'']) = High
   \<and> class_of (getTickerPriority example_scheduler ''SPX'' []) = Low
   \<and> class_of (getTickerPriority example_scheduler ''QQQ'' []) = Medium
   \<and> class_of (getTickerPriority example_scheduler ''IWM'' []) = Medium
   \<and> class_of (getTickerPriority example_scheduler ''DIA'' []) = Low"
  by (simp add: getTickerPriority_entry_first entry_first_priority_def
      configured_priority_def displayed_set_def lookupTickerConfig_def
      example_scheduler_def example_settings_def)

section \<open>Results: rate-limit tracker\<close>

lemma updateFromHeaders_keeps:
  "requestTimes (updateFromHeaders pI pF rlt h) = requestTimes rlt"
  "rateLimitWindow (updateFromHeaders pI pF rlt h) = rateLimitWindow rlt"
  by (simp_all add: updateFromHeaders_def Let_def split: option.splits)

lemma RecordRequest_requestTimes:
  "requestTimes (RecordRequest pI pF rlt t ok hs) =
     (if length (requestTimes rlt) + 1 > 2000
      then filter (\<lambda>x. x > t - rateLimitWindow rlt) (requestTimes rlt @ [t])
      else requestTimes rlt @ [t])"
  by (simp add: RecordRequest_def Let_def updateFromHeaders_keeps split: option.splits)

lemma RecordRequest_window:
  "rateLimitWindow (RecordRequest pI pF rlt t ok hs) = rateLimitWindow rlt"
  by (simp add: RecordRequest_def Let_def updateFromHeaders_keeps split: option.splits)

lemma burst_Suc:
  "burst (Suc n) = RecordRequest (\<lambda>_. 0) (\<lambda>_. 0) (burst n) 100 True None"
  by (simp add: burst_def)

lemma burst_history:
  "requestTimes (burst n) = replicate n 100 \<and> rateLimitWindow (burst n) = 60"
proof (induction n)
  case 0
  show ?case by (simp add: burst_def NewRateLimitTracker_def)
next
  case (Suc n)
  have "replicate n (100::real) @ [100] = replicate (Suc n) 100"
    by (simp add: replicate_append_same)
  with Suc show ?case
    by (simp only: burst_Suc RecordRequest_requestTimes RecordRequest_window)
       (simp del: replicate_Suc)
qed

text \<open>
  C9, as stated, fails: 2001 requests recorded at the same second on a fresh tracker
  are all inside the window, so the cleaning pass keeps 2001 entries.
\<close>

theorem RecordRequest_cap_counterexample:
  "\<not> length (requestTimes (RecordRequest (\<lambda>_. 0) (\<lambda>_. 0) (burst 2000) 100 True None)) \<le> 2000"
proof -
  have "requestTimes (burst (Suc 2000)) = replicate (Suc 2000) 100"
    using burst_history by blast
  then have "length (requestTimes (burst (Suc 2000))) = Suc 2000"
    by (simp only: length_replicate)
  then have "length (requestTimes (RecordRequest (\<lambda>_. 0) (\<lambda>_. 0) (burst 2000) 100 True None))
      = Suc 2000"
    by (simp only: burst_Suc)
  then show ?thesis
    by linarith
qed

text \<open>
  C9, amended. After every \<^verbatim>\<open>RecordRequest\<close> call the history holds at most 2000
  timestamps or only timestamps newer than the recorded request time minus the window:
  when the append makes the length exceed 2000, the history is exactly the appended
  history filtered to those timestamps (otherwise it is the appended history), and the
  window is left as it was (60 s from the constructor).
\<close>

theorem RecordRequest_trims_to_window:
  "requestTimes (RecordRequest pI pF rlt t ok hs) =
     (if length (requestTimes rlt @ [t]) > 2000
      then filter (\<lambda>x. x > t - rateLimitWindow rlt) (requestTimes rlt @ [t])
      else requestTimes rlt @ [t])
   \<and> (length (requestTimes (RecordRequest pI pF rlt t ok hs)) \<le> 2000
      \<or> (\<forall>x \<in> set (requestTimes (RecordRequest pI pF rlt t ok hs)).
            t - rateLimitWindow rlt < x))
   \<and> rateLimitWindow (RecordRequest pI pF rlt t ok hs) = rateLimitWindow rlt
   \<and> rateLimitWindow NewRateLimitTracker = 60"
  by (auto simp: RecordRequest_requestTimes RecordRequest_window NewRateLimitTracker_def)

theorem RecordRequest_trims_to_window_witness:
  "requestTimes (RecordRequest (\<lambda>_. 0) (\<lambda>_. 0)
       (NewRateLimitTracker\<lparr>requestTimes := [1, 2]\<rparr>) 70 True None) = [1, 2, 70]
   \<and> requestTimes (RecordRequest (\<lambda>_. 0) (\<lambda>_. 0)
       (NewRateLimitTracker\<lparr>requestTimes := 5 # replicate 2000 100\<rparr>) 130 True None)
      = replicate 2000 100 @ [130]"
  using RecordRequest_trims_to_window
    [of "\<lambda>_. 0" "\<lambda>_. 0" "NewRateLimitTracker\<lparr>requestTimes := [1, 2]\<rparr>" 70 True None]
    RecordRequest_trims_to_window
    [of "\<lambda>_. 0" "\<lambda>_. 0" "NewRateLimitTracker\<lparr>requestTimes := 5 # replicate 2000 100\<rparr>"
        130 True None]
  by (simp add: NewRateLimitTracker_def)

section \<open>Results: deduplication\<close>

lemma sortInner_length [simp]: "length (sortInner i j xs) = length xs"
  by (induction i j xs rule: sortInner.induct) (subst sortInner.simps, simp)

lemma sortInner_mset: "i < length xs \<Longrightarrow> mset (sortInner i j xs) = mset xs"
proof (induction i j xs rule: sortInner.induct)
  case (1 i j arr)
  show ?case
  proof (cases "j < length arr")
    case True
    let ?s = "if Timestamp (arr ! i) > Timestamp (arr ! j)
              then arr[i := arr ! j, j := arr ! i] else arr"
    have "mset ?s = mset arr"
      using True "1.prems" by (simp add: mset_swap)
    moreover have "mset (sortInner i (j + 1) ?s) = mset ?s"
      using "1.IH" [OF True] "1.prems" by simp
    ultimately show ?thesis
      using True by (subst sortInner.simps) simp
  next
    case False
    then show ?thesis by (subst sortInner.simps) simp
  qed
qed

text \<open>Positions before i are untouched; positions from i on hold elements that were there.\<close>

lemma sortInner_nth:
  "i < j \<Longrightarrow> b < length xs \<Longrightarrow>
     (b < i \<longrightarrow> sortInner i j xs ! b = xs ! b)
     \<and> (i \<le> b \<longrightarrow> (\<exists>c. i \<le> c \<and> c < length xs \<and> sortInner i j xs ! b = xs ! c))"
proof (induction i j xs arbitrary: b rule: sortInner.induct)
  case (1 i j arr)
  show ?case
  proof (cases "j < length arr")
    case True
    let ?s = "if Timestamp (arr ! i) > Timestamp (arr ! j)
              then arr[i := arr ! j, j := arr ! i] else arr"
    have len: "length ?s = length arr" by simp
    have eq: "sortInner i j arr = sortInner i (j + 1) ?s"
      using True by (subst sortInner.simps) simp
    have ih: "(b < i \<longrightarrow> sortInner i (j + 1) ?s ! b = ?s ! b)
       \<and> (i \<le> b \<longrightarrow> (\<exists>c. i \<le> c \<and> c < length ?s \<and> sortInner i (j + 1) ?s ! b = ?s ! c))"
      using "1.IH" [OF True, of b] "1.prems" len by simp
    have old_lt: "?s ! c = arr ! c" if "c < i" for c
      using that "1.prems"(1) by simp
    have old_ge: "\<exists>d. i \<le> d \<and> d < length arr \<and> ?s ! c = arr ! d"
      if c: "i \<le> c" "c < length arr" for c
    proof (cases "Timestamp (arr ! i) > Timestamp (arr ! j)")
      case False
      then show ?thesis using c by auto
    next
      case sw: True
      have ij: "i < j" "j < length arr" "i < length arr"
        using "1.prems"(1) True by simp_all
      consider "c = j" | "c = i" | "c \<noteq> i" "c \<noteq> j" by blast
      then show ?thesis
      proof cases
        case 1
        then have "?s ! c = arr ! i" using sw ij by simp
        then show ?thesis using ij by blast
      next
        case 2
        then have "?s ! c = arr ! j" using sw ij by simp
        then show ?thesis using ij by (meson less_imp_le_nat)
      next
        case 3
        then have "?s ! c = arr ! c" using sw by simp
        then show ?thesis using c by blast
      qed
    qed
    show ?thesis
      unfolding eq
    proof (intro conjI impI)
      assume "b < i"
      then show "sortInner i (j + 1) ?s ! b = arr ! b"
        using ih old_lt by simp
    next
      assume "i \<le> b"
      then obtain c where c: "i \<le> c" "c < length ?s" "sortInner i (j + 1) ?s ! b = ?s ! c"
        using ih by blast
      then have "c < length arr" using len by simp
      from old_ge [OF c(1) this] obtain d where "i \<le> d" "d < length arr" "?s ! c = arr ! d"
        by blast
      then show "\<exists>c. i \<le> c \<and> c < length arr \<and> sortInner i (j + 1) ?s ! b = arr ! c"
        using c(3) by auto
    qed
  next
    case False
    then have "sortInner i j arr = arr" by (subst sortInner.simps) simp
    then show ?thesis using "1.prems" False by auto
  qed
qed

lemma sortInner_min_aux:
  "i < j \<Longrightarrow> i < length xs \<Longrightarrow>
   (\<forall>k. i < k \<and> k < j \<and> k < length xs \<longrightarrow> Timestamp (xs ! i) \<le> Timestamp (xs ! k)) \<Longrightarrow>
   i < k \<Longrightarrow> k < length xs \<Longrightarrow>
   Timestamp (sortInner i j xs ! i) \<le> Timestamp (sortInner i j xs ! k)"
proof (induction i j xs arbitrary: k rule: sortInner.induct)
  case (1 i j arr)
  show ?case
  proof (cases "j < length arr")
    case True
    let ?s = "if Timestamp (arr ! i) > Timestamp (arr ! j)
              then arr[i := arr ! j, j := arr ! i] else arr"
    have eq: "sortInner i j arr = sortInner i (j + 1) ?s"
      using True by (subst sortInner.simps) simp
    have ij: "i < j" "j < length arr" "i < length arr"
      using "1.prems"(1,2) True by simp_all
    have len: "length ?s = length arr" by simp
    have inv: "\<forall>k. i < k \<and> k < j + 1 \<and> k < length ?s \<longrightarrow> Timestamp (?s ! i) \<le> Timestamp (?s ! k)"
    proof (intro allI impI)
      fix k assume k: "i < k \<and> k < j + 1 \<and> k < length ?s"
      then have kl: "k < length arr" "i < k" "k \<le> j" using len by simp_all
      show "Timestamp (?s ! i) \<le> Timestamp (?s ! k)"
      proof (cases "Timestamp (arr ! i) > Timestamp (arr ! j)")
        case sw: True
        have si: "?s ! i = arr ! j" using sw ij by simp
        show ?thesis
        proof (cases "k = j")
          case True
          then have "?s ! k = arr ! i" using sw ij by simp
          then show ?thesis using si sw by simp
        next
          case False
          then have "k < j" using kl by simp
          then have "Timestamp (arr ! i) \<le> Timestamp (arr ! k)"
            using "1.prems"(3) kl by blast
          moreover have "?s ! k = arr ! k" using sw False kl by simp
          ultimately show ?thesis using si sw by simp
        qed
      next
        case nsw: False
        show ?thesis
        proof (cases "k = j")
          case True
          then show ?thesis using nsw by simp
        next
          case False
          then have "k < j" using kl by simp
          then have "Timestamp (arr ! i) \<le> Timestamp (arr ! k)"
            using "1.prems"(3) kl by blast
          then show ?thesis using nsw by simp
        qed
      qed
    qed
    have "Timestamp (sortInner i (j + 1) ?s ! i) \<le> Timestamp (sortInner i (j + 1) ?s ! k)"
    proof (rule "1.IH" [OF True])
      show "i < j + 1" using ij by simp
      show "i < length ?s" using ij len by simp
      show "\<forall>k. i < k \<and> k < j + 1 \<and> k < length ?s \<longrightarrow> Timestamp (?s ! i) \<le> Timestamp (?s ! k)"
        by (rule inv)
      show "i < k" by (rule "1.prems"(4))
      show "k < length ?s" using "1.prems"(5) len by simp
    qed
    then show ?thesis
      unfolding eq .
  next
    case False
    then have "sortInner i j arr = arr" by (subst sortInner.simps) simp
    then show ?thesis using "1.prems" False by auto
  qed
qed

lemma sortInner_min:
  "i < length xs \<Longrightarrow> i < k \<Longrightarrow> k < length xs \<Longrightarrow>
   Timestamp (sortInner i (i + 1) xs ! i) \<le> Timestamp (sortInner i (i + 1) xs ! k)"
  by (rule sortInner_min_aux) auto

lemma settled_step:
  assumes "settled i xs" and "i < length xs"
  shows "settled (i + 1) (sortInner i (i + 1) xs)"
  unfolding settled_def
proof (intro allI impI)
  fix a b
  let ?r = "sortInner i (i + 1) xs"
  assume h: "a < b \<and> b < length ?r \<and> a < i + 1"
  then have b: "b < length xs" and ab: "a < b" by simp_all
  show "Timestamp (?r ! a) \<le> Timestamp (?r ! b)"
  proof (cases "a = i")
    case True
    then show ?thesis using sortInner_min [OF assms(2), of b] ab b by simp
  next
    case False
    then have ai: "a < i" using h by simp
    have ra: "?r ! a = xs ! a"
      using sortInner_nth [of i "i + 1" a xs] ai assms(2) by simp
    have "\<exists>c. a < c \<and> c < length xs \<and> ?r ! b = xs ! c"
    proof (cases "b < i")
      case True
      then have "?r ! b = xs ! b"
        using sortInner_nth [of i "i + 1" b xs] b by simp
      then show ?thesis using ab b by blast
    next
      case False
      then obtain c where "i \<le> c" "c < length xs" "?r ! b = xs ! c"
        using sortInner_nth [of i "i + 1" b xs] b by auto
      then show ?thesis using ai by (meson less_le_trans)
    qed
    then obtain c where c: "a < c" "c < length xs" "?r ! b = xs ! c" by blast
    have "Timestamp (xs ! a) \<le> Timestamp (xs ! c)"
      using assms(1) c ai unfolding settled_def by blast
    then show ?thesis using ra c by simp
  qed
qed

lemma sortOuter_length [simp]: "length (sortOuter i xs) = length xs"
  by (induction i xs rule: sortOuter.induct) (subst sortOuter.simps, simp)

lemma sortOuter_mset: "mset (sortOuter i xs) = mset xs"
proof (induction i xs rule: sortOuter.induct)
  case (1 i arr)
  show ?case
  proof (cases "int i < int (length arr) - 1")
    case True
    then have "i < length arr" by linarith
    then show ?thesis
      using True "1.IH" [OF True] by (subst sortOuter.simps) (simp add: sortInner_mset)
  next
    case False
    then show ?thesis by (subst sortOuter.simps) simp
  qed
qed

lemma sortOuter_settled:
  "settled i xs \<Longrightarrow> settled (length xs) (sortOuter i xs)"
proof (induction i xs rule: sortOuter.induct)
  case (1 i arr)
  show ?case
  proof (cases "int i < int (length arr) - 1")
    case True
    then have il: "i < length arr" by linarith
    have "settled (i + 1) (sortInner i (i + 1) arr)"
      using settled_step [OF "1.prems" il] .
    then have "settled (length arr) (sortOuter (i + 1) (sortInner i (i + 1) arr))"
      using "1.IH" [OF True] by simp
    then show ?thesis using True by (subst sortOuter.simps) simp
  next
    case False
    then have "length arr \<le> i + 1" by linarith
    have "settled (length arr) arr"
      unfolding settled_def
    proof (intro allI impI)
      fix a b
      assume h: "a < b \<and> b < length arr \<and> a < length arr"
      then have "a < i" using \<open>length arr \<le> i + 1\<close> by linarith
      then show "Timestamp (arr ! a) \<le> Timestamp (arr ! b)"
        using "1.prems" h unfolding settled_def by blast
    qed
    then show ?thesis using False by (subst sortOuter.simps) simp
  qed
qed

lemma sortOuter_sorted:
  "sorted_wrt (\<lambda>a b. Timestamp a \<le> Timestamp b) (sortOuter 0 xs)"
proof -
  have "settled 0 xs" by (simp add: settled_def)
  then have "settled (length xs) (sortOuter 0 xs)" by (rule sortOuter_settled)
  then show ?thesis
    by (simp add: sorted_wrt_iff_nth_less settled_def)
qed


lemma runs_Nil_iff [simp]: "runs tol xs = [] \<longleftrightarrow> xs = []"
  by (induction tol xs rule: runs.induct) (auto split: list.splits)

lemma runs_hd: "xs \<noteq> [] \<Longrightarrow> hd (hd (runs tol xs)) = hd xs \<and> hd (runs tol xs) \<noteq> []"
  by (induction tol xs rule: runs.induct) (auto split: list.splits)

lemma runs_no_empty: "[] \<notin> set (runs tol xs)"
  by (induction tol xs rule: runs.induct) (auto split: list.splits)

lemma runs_concat: "concat (runs tol xs) = xs"
  by (induction tol xs rule: runs.induct) (auto split: list.splits)

lemma dedupLoop_runs: "dedupLoop tol xs = map last (runs tol xs)"
proof (induction tol xs rule: dedupLoop.induct)
  case (3 tol w nxt rest)
  obtain r rs where rr: "runs tol (nxt # rest) = r # rs"
    by (cases "runs tol (nxt # rest)") auto
  have "r \<noteq> []" using runs_no_empty [of tol "nxt # rest"] rr by auto
  then show ?case using 3 rr by auto
qed auto

lemma close_run_Cons:
  "close_run tol r \<Longrightarrow> Timestamp (hd r) - Timestamp w \<le> tol \<Longrightarrow> close_run tol (w # r)"
  unfolding close_run_def
proof (intro conjI allI impI)
  fix k
  assume a: "r \<noteq> [] \<and> (\<forall>k. Suc k < length r \<longrightarrow> Timestamp (r ! Suc k) - Timestamp (r ! k) \<le> tol)"
    and b: "Timestamp (hd r) - Timestamp w \<le> tol" and k: "Suc k < length (w # r)"
  show "Timestamp ((w # r) ! Suc k) - Timestamp ((w # r) ! k) \<le> tol"
  proof (cases k)
    case 0
    then show ?thesis using a b by (simp add: hd_conv_nth)
  next
    case (Suc m)
    then show ?thesis using a k by simp
  qed
qed simp

lemma runs_close: "r \<in> set (runs tol xs) \<Longrightarrow> close_run tol r"
proof (induction tol xs arbitrary: r rule: runs.induct)
  case (1 tol)
  then show ?case by simp
next
  case (2 tol w)
  then show ?case by (simp add: close_run_def)
next
  case (3 tol w nxt rest)
  obtain r0 rs where rr: "runs tol (nxt # rest) = r0 # rs"
    by (cases "runs tol (nxt # rest)") auto
  have h0: "hd r0 = nxt" using runs_hd [of "nxt # rest" tol] rr by simp
  show ?case
  proof (cases "Timestamp nxt - Timestamp w \<le> tol")
    case True
    then have "r = w # r0 \<or> r \<in> set rs" using "3.prems" rr by simp
    then show ?thesis
    proof
      assume "r = w # r0"
      moreover have "close_run tol r0" using "3.IH"(1) [OF True] rr by simp
      ultimately show ?thesis using close_run_Cons True h0 by simp
    next
      assume "r \<in> set rs"
      then show ?thesis using "3.IH"(1) [OF True] rr by simp
    qed
  next
    case False
    then have "r = [w] \<or> r \<in> set (runs tol (nxt # rest))" using "3.prems" by simp
    then show ?thesis
    proof
      assume "r = [w]" then show ?thesis by (simp add: close_run_def)
    next
      assume "r \<in> set (runs tol (nxt # rest))"
      then show ?thesis using "3.IH"(2) False by simp
    qed
  qed
qed

lemma runs_gaps:
  "Suc k < length (runs tol xs) \<Longrightarrow>
     tol < Timestamp (hd (runs tol xs ! Suc k)) - Timestamp (last (runs tol xs ! k))"
proof (induction tol xs arbitrary: k rule: runs.induct)
  case (1 tol)
  then show ?case by simp
next
  case (2 tol w)
  then show ?case by simp
next
  case (3 tol w nxt rest)
  obtain r0 rs where rr: "runs tol (nxt # rest) = r0 # rs"
    by (cases "runs tol (nxt # rest)") auto
  have r0: "hd r0 = nxt" "r0 \<noteq> []" using runs_hd [of "nxt # rest" tol] rr by simp_all
  show ?case
  proof (cases "Timestamp nxt - Timestamp w \<le> tol")
    case True
    then have eq: "runs tol (w # nxt # rest) = (w # r0) # rs" using rr by simp
    have ih: "tol < Timestamp (hd ((r0 # rs) ! Suc k)) - Timestamp (last ((r0 # rs) ! k))"
      using "3.IH"(1) [OF True, of k] "3.prems" rr eq by simp
    show ?thesis
    proof (cases k)
      case 0
      then show ?thesis using ih eq r0 by simp
    next
      case (Suc m)
      then show ?thesis using ih eq by simp
    qed
  next
    case False
    then have eq: "runs tol (w # nxt # rest) = [w] # r0 # rs" using rr by simp
    show ?thesis
    proof (cases k)
      case 0
      then show ?thesis using eq r0 False by simp
    next
      case (Suc m)
      then have "Suc m < length (runs tol (nxt # rest))" using "3.prems" eq rr by simp
      then have "tol < Timestamp (hd ((r0 # rs) ! Suc m)) - Timestamp (last ((r0 # rs) ! m))"
        using "3.IH"(2) [OF False, of m] rr by simp
      then show ?thesis using eq Suc by simp
    qed
  qed
qed

lemma runs_maximal: "maximal_runs tol (runs tol xs)"
  unfolding maximal_runs_def using runs_close runs_gaps by blast

lemma dedupLoop_subset: "set (dedupLoop tol xs) \<subseteq> set xs"
  by (induction tol xs rule: dedupLoop.induct) auto

lemma dedupLoop_apart:
  "sorted_wrt (\<lambda>a b. Timestamp a \<le> Timestamp b) xs \<Longrightarrow>
   sorted_wrt (\<lambda>a b. tol < Timestamp b - Timestamp a) (dedupLoop tol xs)"
proof (induction tol xs rule: dedupLoop.induct)
  case (3 tol w nxt rest)
  have tl: "sorted_wrt (\<lambda>a b. tol < Timestamp b - Timestamp a) (dedupLoop tol (nxt # rest))"
    using 3 by (auto split: if_splits)
  show ?case
  proof (cases "Timestamp nxt - Timestamp w \<le> tol")
    case True
    then show ?thesis using tl by simp
  next
    case False
    have "tol < Timestamp e - Timestamp w" if "e \<in> set (dedupLoop tol (nxt # rest))" for e
    proof -
      have "e \<in> set (nxt # rest)" using that dedupLoop_subset by blast
      then have "Timestamp nxt \<le> Timestamp e" using "3.prems" by auto
      then show ?thesis using False by linarith
    qed
    then show ?thesis using tl False by simp
  qed
qed auto

lemma sortWrites_sorted: "sorted_wrt (\<lambda>a b. Timestamp a \<le> Timestamp b) (sortWrites ws)"
  by (simp add: sortWrites_def sortOuter_sorted)

lemma sortWrites_mset: "mset (sortWrites ws) = mset ws"
  by (simp add: sortWrites_def sortOuter_mset)

lemma deduplicateWrites_eq: "deduplicateWrites ws tol = dedupLoop tol (sortWrites ws)"
proof (cases ws)
  case Nil
  then show ?thesis
    by (simp add: deduplicateWrites_def sortWrites_def sortOuter.simps [of 0 "[]"])
next
  case Cons
  then show ?thesis by (simp add: deduplicateWrites_def)
qed


text \<open>
  C3. For every list of writes passed to a flush, deduplication with the 100 ms
  tolerance sorts the writes by timestamp ascending (a permutation of the input in
  non-decreasing order), and keeps exactly the last write of every maximal run of
  consecutive differences within 0.1 s; so any two surviving writes differ in timestamp
  by more than 0.1 s.
\<close>

theorem deduplicateWrites_keeps_last_of_runs:
  "mset (sortWrites writes) = mset writes
   \<and> (\<forall>i j. i < j \<and> j < length writes \<longrightarrow>
         Timestamp (sortWrites writes ! i) \<le> Timestamp (sortWrites writes ! j))
   \<and> concat (runs tolerance (sortWrites writes)) = sortWrites writes
   \<and> maximal_runs tolerance (runs tolerance (sortWrites writes))
   \<and> deduplicateWrites writes tolerance = map last (runs tolerance (sortWrites writes))
   \<and> (\<forall>i j. i < j \<and> j < length (deduplicateWrites writes tolerance) \<longrightarrow>
         1 / 10 < Timestamp (deduplicateWrites writes tolerance ! j)
                  - Timestamp (deduplicateWrites writes tolerance ! i))"
proof (intro conjI)
  show "mset (sortWrites writes) = mset writes" by (rule sortWrites_mset)
  have len: "length (sortWrites writes) = length writes"
    by (simp add: sortWrites_def)
  show "\<forall>i j. i < j \<and> j < length writes \<longrightarrow>
         Timestamp (sortWrites writes ! i) \<le> Timestamp (sortWrites writes ! j)"
    using sortWrites_sorted [of writes] len by (simp add: sorted_wrt_iff_nth_less)
  show "concat (runs tolerance (sortWrites writes)) = sortWrites writes"
    by (rule runs_concat)
  show "maximal_runs tolerance (runs tolerance (sortWrites writes))"
    by (rule runs_maximal)
  show "deduplicateWrites writes tolerance = map last (runs tolerance (sortWrites writes))"
    by (simp add: deduplicateWrites_eq dedupLoop_runs)
  have "sorted_wrt (\<lambda>a b. tolerance < Timestamp b - Timestamp a)
          (deduplicateWrites writes tolerance)"
    using dedupLoop_apart [OF sortWrites_sorted] by (simp add: deduplicateWrites_eq)
  then show "\<forall>i j. i < j \<and> j < length (deduplicateWrites writes tolerance) \<longrightarrow>
         1 / 10 < Timestamp (deduplicateWrites writes tolerance ! j)
                  - Timestamp (deduplicateWrites writes tolerance ! i)"
    by (simp add: sorted_wrt_iff_nth_less tolerance_def)
qed


theorem deduplicateWrites_keeps_last_of_runs_witness:
  "deduplicateWrites [row ''c'' 3 0, row ''b'' (105 / 100) 0, row ''d'' (112 / 100) 0,
                      row ''a'' 1 0] tolerance
     = [row ''d'' (112 / 100) 0, row ''c'' 3 0]
   \<and> 1 / 10 < Timestamp (row ''c'' 3 0) - Timestamp (row ''d'' (112 / 100) 0)"
proof -
  let ?ws = "[row ''c'' 3 0, row ''b'' (105 / 100) 0, row ''d'' (112 / 100) 0, row ''a'' 1 0]"
  note t = deduplicateWrites_keeps_last_of_runs [of ?ws]
  have srt: "sortWrites ?ws
      = [row ''a'' 1 0, row ''b'' (105 / 100) 0, row ''d'' (112 / 100) 0, row ''c'' 3 0]"
    by (simp add: sortWrites_def sortOuter.simps sortInner.simps row_def)
  have "deduplicateWrites ?ws tolerance = map last (runs tolerance (sortWrites ?ws))"
    using t by (elim conjE)
  moreover have "map last (runs tolerance
        [row ''a'' 1 0, row ''b'' (105 / 100) 0, row ''d'' (112 / 100) 0, row ''c'' 3 0])
      = [row ''d'' (112 / 100) 0, row ''c'' 3 0]"
    by (simp add: tolerance_def row_def)
  ultimately have d: "deduplicateWrites ?ws tolerance = [row ''d'' (112 / 100) 0, row ''c'' 3 0]"
    unfolding srt by (rule trans)
  have "\<forall>i j. i < j \<and> j < length (deduplicateWrites ?ws tolerance) \<longrightarrow>
         1 / 10 < Timestamp (deduplicateWrites ?ws tolerance ! j)
                  - Timestamp (deduplicateWrites ?ws tolerance ! i)"
    using t by (elim conjE)
  then have "0 < (1::nat) \<and> 1 < length (deduplicateWrites ?ws tolerance) \<longrightarrow>
         1 / 10 < Timestamp (deduplicateWrites ?ws tolerance ! 1)
                  - Timestamp (deduplicateWrites ?ws tolerance ! 0)"
    by blast
  then have "1 / 10 < Timestamp (row ''c'' 3 0) - Timestamp (row ''d'' (112 / 100) 0)"
    unfolding d by simp
  with d show ?thesis by simp
qed

section \<open>Results: market day and directory\<close>






lemma WriteDataEntry_appends:
  "pendingOf (fst (WriteDataEntry inET dw ticker timestamp data isActive now later)) ticker
     = pendingOf dw ticker
       @ [\<lparr> pw_Ticker = ticker, Timestamp = timestamp,
            Scalars = fst (extractFields (entries data)
                        ([], case map_of (entries data) ''profiles'' of
                               Some (JObject prof) \<Rightarrow> prof | _ \<Rightarrow> [])),
            Profiles = snd (extractFields (entries data)
                        ([], case map_of (entries data) ''profiles'' of
                               Some (JObject prof) \<Rightarrow> prof | _ \<Rightarrow> [])),
            Date = entryDateOf inET timestamp \<rparr>]"
  by (simp add: WriteDataEntry_def Let_def pendingOf_def split_beta)



section \<open>Results: write queue\<close>

lemma runOps_snoc: "runOps (ops @ [op]) = applyOp (runOps ops) op"
  by (simp add: runOps_def)

lemma latest_undispatched_snoc:
  "latest_undispatched (ops @ [op]) ticker =
     (if op_ticker op = ticker
      then (case op of
              DoDispatch _ \<Rightarrow> None
            | DoEnqueue t timestamp data priority \<Rightarrow>
                Some \<lparr> wt_Ticker = t, wt_Timestamp = timestamp, wt_Data = data,
                       wt_Priority = priority \<rparr>)
      else latest_undispatched ops ticker)"
  by (cases op) (simp_all add: latest_undispatched_def)

lemma processTaskWith_queue:
  "fst (processTaskWith write pwq w ticker) = snd (takePending pwq ticker)"
  by (simp add: processTaskWith_def takePending_def Let_def split_beta
      split: option.splits prod.splits)

text \<open>
  C7. The pending map holds one task per ticker at most (it is a map from tickers):
  after any sequence of enqueues and dispatches from the empty queue, the entry of a
  ticker is the task of the most recent enqueue for that ticker when no dispatch for
  the ticker followed it, and nothing otherwise; a stored task carries the ticker it is
  stored under, and the queue that \<^verbatim>\<open>processTask\<close> leaves is the queue after the
  dispatch.
\<close>

theorem pending_is_latest_undispatched:
  "pq_pendingWrites (runOps ops) ticker = latest_undispatched ops ticker
   \<and> (\<forall>task. pq_pendingWrites (runOps ops) ticker = Some task \<longrightarrow> wt_Ticker task = ticker)
   \<and> pq_pendingWrites (fst (processTaskWith write (runOps ops) w ticker)) ticker = None
   \<and> fst (processTaskWith write (runOps ops) w ticker) = runOps (ops @ [DoDispatch ticker])"
proof -
  have main: "pq_pendingWrites (runOps ops) ticker = latest_undispatched ops ticker"
  proof (induction ops rule: rev_induct)
    case Nil
    show ?case by (simp add: runOps_def NewPriorityWriteQueue_def latest_undispatched_def)
  next
    case (snoc op ops)
    show ?case
    proof (cases op)
      case (DoEnqueue t timestamp data priority)
      then show ?thesis
        using snoc by (simp add: runOps_snoc latest_undispatched_snoc Enqueue_def)
    next
      case (DoDispatch t)
      then show ?thesis
        using snoc
        by (simp add: runOps_snoc latest_undispatched_snoc takePending_def
            split: option.splits)
    qed
  qed
  have owner: "\<forall>task. pq_pendingWrites (runOps ops) ticker = Some task \<longrightarrow> wt_Ticker task = ticker"
  proof (induction ops rule: rev_induct)
    case Nil
    show ?case by (simp add: runOps_def NewPriorityWriteQueue_def)
  next
    case (snoc op ops)
    show ?case
    proof (cases op)
      case (DoEnqueue t timestamp data priority)
      then show ?thesis using snoc by (auto simp: runOps_snoc Enqueue_def)
    next
      case (DoDispatch t)
      then show ?thesis
        using snoc by (auto simp: runOps_snoc takePending_def split: option.splits)
    qed
  qed
  have disp: "fst (processTaskWith write (runOps ops) w ticker) = runOps (ops @ [DoDispatch ticker])"
    by (simp add: processTaskWith_queue runOps_snoc)
  have gone: "pq_pendingWrites (fst (processTaskWith write (runOps ops) w ticker)) ticker = None"
    by (simp add: processTaskWith_queue takePending_def split: option.splits)
  from main owner gone disp show ?thesis by blast
qed

text \<open>Scenario 6 of the specification: two enqueues for one ticker, the later one stays.\<close>

theorem pending_is_latest_undispatched_witness:
  "pq_pendingWrites
     (runOps [DoEnqueue ''AAPL'' 10 None 1, DoEnqueue ''SPX'' 10 None 0,
              DoEnqueue ''AAPL'' (10002 / 1000) None 1, DoDispatch ''SPX'']) ''AAPL''
     = Some \<lparr> wt_Ticker = ''AAPL'', wt_Timestamp = 10002 / 1000, wt_Data = None,
              wt_Priority = 1 \<rparr>
   \<and> pq_pendingWrites
     (runOps [DoEnqueue ''AAPL'' 10 None 1, DoEnqueue ''SPX'' 10 None 0,
              DoEnqueue ''AAPL'' (10002 / 1000) None 1, DoDispatch ''SPX'']) ''SPX'' = None"
proof -
  let ?ops = "[DoEnqueue ''AAPL'' 10 None 1, DoEnqueue ''SPX'' 10 None 0,
               DoEnqueue ''AAPL'' (10002 / 1000) None 1, DoDispatch ''SPX'']"
  have a: "pq_pendingWrites (runOps ?ops) ''AAPL'' = latest_undispatched ?ops ''AAPL''"
    using pending_is_latest_undispatched
      [of "?ops" "''AAPL''" "\<lambda>task isActive u. (u, None)" "()"]
    by (elim conjE)
  have b: "pq_pendingWrites (runOps ?ops) ''SPX'' = latest_undispatched ?ops ''SPX''"
    using pending_is_latest_undispatched
      [of "?ops" "''SPX''" "\<lambda>task isActive u. (u, None)" "()"]
    by (elim conjE)
  show ?thesis
    unfolding a b by (simp add: latest_undispatched_def)
qed

lemma WriteDataEntry_error:
  "snd (snd (WriteDataEntry inET dw ticker timestamp data isActive now later)) = None"
  by (simp add: WriteDataEntry_def Let_def split_beta)

lemma writeTask_error: "snd (writeTask inET now later task isActive w) = None"
  by (simp add: writeTask_def WriteDataEntry_error split: prod.splits)
     (metis WriteDataEntry_error snd_conv)

lemma writeAttempts_no_error:
  assumes "snd (write w) = None"
  shows "writeAttempts write 0 None w [] = (fst (write w), None, [CallWriteDataEntry 0])"
  using assms
  by (subst writeAttempts.simps) (auto simp: maxRetries_def split: prod.splits)

text \<open>
  C10. \<^verbatim>\<open>WriteDataEntry\<close> returns a nil error for every input; a flush it decides on
  is only started (the flag of the result), not run, so no flush error reaches the
  result. Hence \<^verbatim>\<open>processTask\<close>, for any pending task, calls \<^verbatim>\<open>WriteDataEntry\<close>
  exactly once, never sleeps for a retry, never takes the synchronous fallback and
  never drops the write.
\<close>

theorem WriteDataEntry_never_fails:
  "snd (snd (WriteDataEntry inET dw ticker timestamp data isActive now later)) = None
   \<and> (\<forall>task. pq_pendingWrites pwq ticker = Some task \<longrightarrow>
         snd (snd (processTask inET now later pwq w ticker))
           = CallWriteDataEntry 0
             # (if wt_Priority task = 0 then [ScheduleFlush (wt_Ticker task)] else []))"
proof (intro conjI allI impI)
  show "snd (snd (WriteDataEntry inET dw ticker timestamp data isActive now later)) = None"
    by (rule WriteDataEntry_error)
next
  fix task
  assume p: "pq_pendingWrites pwq ticker = Some task"
  have a: "writeAttempts (writeTask inET now later task (wt_Priority task = 0)) 0 None w []
      = (fst (writeTask inET now later task (wt_Priority task = 0) w), None,
         [CallWriteDataEntry 0])"
    by (rule writeAttempts_no_error) (rule writeTask_error)
  show "snd (snd (processTask inET now later pwq w ticker))
      = CallWriteDataEntry 0
        # (if wt_Priority task = 0 then [ScheduleFlush (wt_Ticker task)] else [])"
    by (simp add: processTask_def processTaskWith_def takePending_def p Let_def a)
qed

theorem WriteDataEntry_never_fails_witness:
  "snd (snd (processTask inUTC 5 5
       (Enqueue NewPriorityWriteQueue ''SPX'' 1699864200 (Some [(''spot'', JNumber 4500)]) 0)
       (example_writer, []) ''SPX''))
     = [CallWriteDataEntry 0, ScheduleFlush ''SPX'']"
  using WriteDataEntry_never_fails
    [where inET = inUTC and dw = example_writer and ticker = "''SPX''" and timestamp = 0
       and data = None and isActive = False and now = 5 and later = 5
       and pwq = "Enqueue NewPriorityWriteQueue ''SPX'' 1699864200
                    (Some [(''spot'', JNumber 4500)]) 0"
       and w = "(example_writer, [])"]
  by (simp add: Enqueue_def NewPriorityWriteQueue_def)

section \<open>Results: flushing\<close>

text \<open>
  C8 at a failing input. A ticker has a Friday row and a Monday row pending and every
  flush fails. Whichever group \<^verbatim>\<open>range\<close> visits first is put back and the error is
  returned; the other group was taken out of the pending set, is never handed to
  \<^verbatim>\<open>flushDate\<close>, and is not put back: the pending set holds one row and no file
  holds any.
\<close>

theorem FlushTicker_loses_unvisited_group:
  "FlushTicker (\<lambda>d. []) failing_disk id two_day_writer (\<lambda>path. []) ''SPX'' 10
     = (two_day_writer\<lparr>pendingWrites := [''SPX'' \<mapsto> [row ''fri'' 1 19671]],
                        lastFlushTime := [''SPX'' \<mapsto> 10]\<rparr>,
        \<lambda>path. [], Some (Errorf ''failed to get connection''))
   \<and> FlushTicker (\<lambda>d. []) failing_disk rev two_day_writer (\<lambda>path. []) ''SPX'' 10
     = (two_day_writer\<lparr>pendingWrites := [''SPX'' \<mapsto> [row ''mon'' 2 19674]],
                        lastFlushTime := [''SPX'' \<mapsto> 10]\<rparr>,
        \<lambda>path. [], Some (Errorf ''failed to get connection''))"
  by (simp add: FlushTicker_def two_day_writer_def example_writer_def pendingOf_def
      dateKey_def Date_at_def row_def byDate_def flushDate_def failing_disk_def Let_def)

section \<open>Results: HTTP endpoint client\<close>








section \<open>Results: coordinator\<close>

text \<open>
  C2 at a failing input. The plan holds one ticker with one endpoint and the fetch
  fails. \<^verbatim>\<open>aggregateResults\<close> gives the ticker the empty map it made for it, which
  is not nil, so the test \<^verbatim>\<open>data != nil\<close> passes, the branch that logs
  \<^verbatim>\<open>No data collected\<close> is not taken, and a write with no fields is enqueued;
  \<^verbatim>\<open>processTask\<close> then hands it to \<^verbatim>\<open>WriteDataEntry\<close>, which appends a row without
  scalars or profiles to the writer's pending set.
\<close>

theorem ProcessTickerBatch_enqueues_empty_row:
  "map_option snd
     (ProcessTickerBatch one_endpoint_planner planQueries all_fail False False []
        1700000000 (example_scheduler, NewPriorityWriteQueue) [''SPX''])
     = Some (Enqueue NewPriorityWriteQueue ''SPX'' 1700000000 (Some []) 1)
   \<and> aggregateResults (one_endpoint_planner [''SPX'']) [] = Some [(''SPX'', Some [])]
   \<and> pendingOf (fst (fst (snd
        (processTask inUTC 0 0
           (Enqueue NewPriorityWriteQueue ''SPX'' 1700000000 (Some []) 1)
           (example_writer, []) ''SPX'')))) ''SPX''
     = [\<lparr> pw_Ticker = ''SPX'', Timestamp = 1700000000, Scalars = [], Profiles = [],
          Date = \<lparr> day = 19675, clock = 0 \<rparr> \<rparr>]"
proof (intro conjI)
  show "aggregateResults (one_endpoint_planner [''SPX'']) [] = Some [(''SPX'', Some [])]"
    by (simp add: aggregateResults_def one_endpoint_planner_def)
  then show "map_option snd
     (ProcessTickerBatch one_endpoint_planner planQueries all_fail False False []
        1700000000 (example_scheduler, NewPriorityWriteQueue) [''SPX''])
     = Some (Enqueue NewPriorityWriteQueue ''SPX'' 1700000000 (Some []) 1)"
    by (simp add: ProcessTickerBatch_def planQueries_def all_fail_def List.map_filter_simps
        ProcessCompletedTickerData_def Let_def entries_def one_endpoint_planner_def)
  have e: "entryDateOf inUTC 1700000000 = \<lparr> day = 19675, clock = 0 \<rparr>"
    by (simp add: entryDateOf_def inUTC_def int64_of_def GetMarketDateForDate_def
        IsWeekend_def Weekday_def Saturday_def Sunday_def Date_at_def Before_def Let_def)
  have w: "writeAttempts (writeTask inUTC 0 0 task False) 0 None (example_writer, []) []
      = (fst (writeTask inUTC 0 0 task False (example_writer, [])), None, [CallWriteDataEntry 0])"
    for task
    by (rule writeAttempts_no_error) (rule writeTask_error)
  show "pendingOf (fst (fst (snd
        (processTask inUTC 0 0
           (Enqueue NewPriorityWriteQueue ''SPX'' 1700000000 (Some []) 1)
           (example_writer, []) ''SPX'')))) ''SPX''
     = [\<lparr> pw_Ticker = ''SPX'', Timestamp = 1700000000, Scalars = [], Profiles = [],
          Date = \<lparr> day = 19675, clock = 0 \<rparr> \<rparr>]"
  proof -
    let ?task = "\<lparr> wt_Ticker = ''SPX'', wt_Timestamp = 1700000000, wt_Data = Some [],
                  wt_Priority = 1 \<rparr>"
    have "fst (snd (processTask inUTC 0 0
           (Enqueue NewPriorityWriteQueue ''SPX'' 1700000000 (Some []) 1)
           (example_writer, []) ''SPX''))
        = fst (writeTask inUTC 0 0 ?task False (example_writer, []))"
      by (simp add: processTask_def processTaskWith_def takePending_def Enqueue_def
          NewPriorityWriteQueue_def Let_def w)
    moreover have "pendingOf (fst (fst (writeTask inUTC 0 0 ?task False (example_writer, []))))
          ''SPX''
        = [\<lparr> pw_Ticker = ''SPX'', Timestamp = 1700000000, Scalars = [], Profiles = [],
             Date = \<lparr> day = 19675, clock = 0 \<rparr> \<rparr>]"
      by (simp add: writeTask_def split_beta WriteDataEntry_appends entries_def e)
         (simp add: example_writer_def pendingOf_def)
    ultimately show ?thesis by simp
  qed
qed

end
